theory Spec2Isabelle
  imports Complex_Main "HOL-Library.Word" "HOL-Library.Log_Nat"
begin

section \<open>Strings and the environment\<close>

text \<open>
  A JavaScript string is a sequence of 16-bit code units. String literals of the source
  are ASCII, so \<open>str\<close> lifts an ASCII literal to code units.
\<close>

type_synonym code_unit = "16 word"
type_synonym jsstring = "code_unit list"

definition str :: "string \<Rightarrow> jsstring" where
  "str cs = map of_char cs"

text \<open>
  \<open>process.env\<close>: every property is a string or \<open>undefined\<close>. The source reads it after
  \<open>dotenv.config()\<close> has run; the mapping below is the environment at that moment.
\<close>

type_synonym environment = "jsstring \<rightharpoonup> jsstring"

text \<open>
  White space as \<open>parseInt\<close> trims it and as the class escape \<open>\s\<close> matches it: the
  code points of the productions WhiteSpace and LineTerminator.
\<close>

definition white_space :: "code_unit list" where
  "white_space =
     [0x0009, 0x000A, 0x000B, 0x000C, 0x000D, 0x0020, 0x00A0, 0x1680,
      0x2000, 0x2001, 0x2002, 0x2003, 0x2004, 0x2005, 0x2006, 0x2007,
      0x2008, 0x2009, 0x200A, 0x2028, 0x2029, 0x202F, 0x205F, 0x3000, 0xFEFF]"

definition is_white_space :: "code_unit \<Rightarrow> bool" where
  "is_white_space c = (c \<in> set white_space)"

section \<open>Numbers\<close>

text \<open>
  The type \<open>number\<close> of the source is IEEE 754 binary64. A finite value is kept as the
  rational it denotes (\<open>Num 0\<close> is the positive zero); the negative zero, the two
  infinities and the single observable NaN are separate values. Equality of this type is
  the SameValue comparison (\<open>Object.is\<close>, Jest's \<open>toBe\<close>).
\<close>

datatype number = NaN | PosInfinity | NegInfinity | NegZero | Num rat

text \<open>The exponent \<open>e\<close> with \<open>2 ^ e \<le> a < 2 ^ (e + 1)\<close>, for positive \<open>a\<close>.\<close>

definition floor_log2 :: "rat \<Rightarrow> int" where
  "floor_log2 a = (let (p, d) = quotient_of a; k = bitlen p - bitlen d
                   in if 2 powi k \<le> a then k else k - 1)"

definition round_half_even :: "rat \<Rightarrow> int" where
  "round_half_even x = (let f = \<lfloor>x\<rfloor>; r = x - of_int f
     in if r < 1 / 2 then f else if 1 / 2 < r then f + 1 else if even f then f else f + 1)"

text \<open>
  The number value for a real: round to nearest, ties to even, with 53 significant bits,
  gradual underflow below \<open>2 ^ - 1022\<close> and overflow to an infinity from \<open>2 ^ 1024\<close>.
\<close>

definition round_to_double :: "rat \<Rightarrow> number" where
  "round_to_double x = (if x = 0 then Num 0 else
     let a = \<bar>x\<bar>; e = max (floor_log2 a) (- 1022); ulp = 2 powi (e - 52);
         r = of_int (round_half_even (a / ulp)) * ulp
     in if 2 powi 1024 \<le> r then (if x < 0 then NegInfinity else PosInfinity)
        else if x < 0 then (if r = 0 then NegZero else Num (- r)) else Num r)"

section \<open>parseInt\<close>

text \<open>
  \<open>parseInt(string, radix)\<close> on a string argument, the radix already an integer: trim
  leading white space, read a sign, take the longest prefix of radix digits, and return
  NaN when that prefix is empty. The value of the digits is rounded once to the number
  type.
\<close>

definition digit_value :: "code_unit \<Rightarrow> int option" where
  "digit_value c =
     (if 0x30 \<le> c \<and> c \<le> 0x39 then Some (uint c - 0x30)
      else if 0x61 \<le> c \<and> c \<le> 0x7A then Some (uint c - 0x61 + 10)
      else if 0x41 \<le> c \<and> c \<le> 0x5A then Some (uint c - 0x41 + 10)
      else None)"

definition is_radix_digit :: "int \<Rightarrow> code_unit \<Rightarrow> bool" where
  "is_radix_digit R c = (case digit_value c of None \<Rightarrow> False | Some d \<Rightarrow> d < R)"

text \<open>The integer that the digits \<open>Z\<close> denote in radix \<open>R\<close>, taken exactly.\<close>

definition math_int :: "int \<Rightarrow> jsstring \<Rightarrow> int" where
  "math_int R Z =
     foldl (\<lambda>n c. n * R + (case digit_value c of None \<Rightarrow> 0 | Some d \<Rightarrow> d)) 0 Z"

definition has_hex_prefix :: "jsstring \<Rightarrow> bool" where
  "has_hex_prefix S = (take 2 S = str ''0x'' \<or> take 2 S = str ''0X'')"

text \<open>TrimString at the start, and the removal of one leading sign.\<close>

definition trim_start :: "jsstring \<Rightarrow> jsstring" where
  "trim_start string = dropWhile is_white_space string"

definition strip_sign :: "jsstring \<Rightarrow> jsstring" where
  "strip_sign S = (if S \<noteq> [] \<and> (hd S = 0x2B \<or> hd S = 0x2D) then tl S else S)"

text \<open>
  The last steps: the digits \<open>Z\<close> that the radix admits at the start of \<open>S\<close>, their value
  \<open>mathInt\<close>, and the number for \<open>sign * mathInt\<close>.
\<close>

definition number_of_digits :: "int \<Rightarrow> int \<Rightarrow> jsstring \<Rightarrow> number" where
  "number_of_digits sign R S =
     (let Z = takeWhile (is_radix_digit R) S
      in if Z = [] then NaN
         else
           let mathInt = math_int R Z
           in if mathInt = 0 then (if sign = - 1 then NegZero else Num 0)
              else round_to_double (of_int (sign * mathInt)))"

definition parseInt :: "jsstring \<Rightarrow> int \<Rightarrow> number" where
  "parseInt string radix =
     (let S = trim_start string;
          sign = (if S \<noteq> [] \<and> hd S = 0x2D then - 1 else 1 :: int);
          S = strip_sign S
      in if radix \<noteq> 0 \<and> (radix < 2 \<or> 36 < radix) then NaN
         else
           let stripPrefix = (radix = 0 \<or> radix = 16);
               R = (if radix = 0 then 10 else radix);
               R = (if stripPrefix \<and> has_hex_prefix S then 16 else R);
               S = (if stripPrefix \<and> has_hex_prefix S then drop 2 S else S)
           in number_of_digits sign R S)"

text \<open>\<open>Number.isInteger\<close>: a finite number with an integral value.\<close>

definition isInteger :: "number \<Rightarrow> bool" where
  "isInteger n = (case n of Num q \<Rightarrow> of_int \<lfloor>q\<rfloor> = q | NegZero \<Rightarrow> True | _ \<Rightarrow> False)"

text \<open>
  The string has no decimal digit where \<open>parseInt\<close> looks for one: after the leading
  white space and one optional sign.
\<close>

definition no_leading_digit :: "jsstring \<Rightarrow> bool" where
  "no_leading_digit s =
     (case strip_sign (trim_start s) of [] \<Rightarrow> True | c # _ \<Rightarrow> \<not> is_radix_digit 10 c)"

section \<open>The configuration object\<close>

record configuration =
  nodeEnv :: jsstring
  port :: number
  databaseUrl :: "jsstring option"
  redisUrl :: "jsstring option"

text \<open>\<open>x || d\<close> for \<open>x\<close> a string or \<open>undefined\<close>: both \<open>undefined\<close> and \<open>""\<close> are falsy.\<close>

definition logical_or :: "jsstring option \<Rightarrow> jsstring \<Rightarrow> jsstring" where
  "logical_or x d = (case x of None \<Rightarrow> d | Some s \<Rightarrow> if s = [] then d else s)"

definition config :: "environment \<Rightarrow> configuration" where
  "config env =
     \<lparr> nodeEnv = logical_or (env (str ''NODE_ENV'')) (str ''development''),
       port = parseInt (logical_or (env (str ''PORT'')) (str ''3000'')) 10,
       databaseUrl = env (str ''DATABASE_URL''),
       redisUrl = env (str ''REDIS_URL'') \<rparr>"

text \<open>
  The same object literal as a computation on the process state, which the specification
  calls buildConfiguration: the four reads of \<open>process.env\<close> in the order of the source,
  each handing on the environment it found. A read of a property returns its value and
  leaves the environment as it is; the literal has no assignment.
\<close>

definition read_env :: "jsstring \<Rightarrow> environment \<Rightarrow> jsstring option \<times> environment" where
  "read_env key env = (env key, env)"

definition buildConfiguration :: "environment \<Rightarrow> configuration \<times> environment" where
  "buildConfiguration env =
     (let (node_env, env) = read_env (str ''NODE_ENV'') env;
          (port_text, env) = read_env (str ''PORT'') env;
          (database_url, env) = read_env (str ''DATABASE_URL'') env;
          (redis_url, env) = read_env (str ''REDIS_URL'') env
      in (\<lparr> nodeEnv = logical_or node_env (str ''development''),
            port = parseInt (logical_or port_text (str ''3000'')) 10,
            databaseUrl = database_url,
            redisUrl = redis_url \<rparr>, env))"

section \<open>The utility functions\<close>

text \<open>The real that a finite number denotes; both zeros denote 0.\<close>

definition real_value :: "number \<Rightarrow> rat" where
  "real_value x = (case x of Num q \<Rightarrow> q | _ \<Rightarrow> 0)"

text \<open>\<open>a + b\<close> on two numbers, in the order of the language's Number::add.\<close>

definition add :: "number \<Rightarrow> number \<Rightarrow> number" where
  "add a b =
     (if a = NaN \<or> b = NaN then NaN
      else if a = PosInfinity \<and> b = NegInfinity then NaN
      else if a = NegInfinity \<and> b = PosInfinity then NaN
      else if a = PosInfinity \<or> a = NegInfinity then a
      else if b = PosInfinity \<or> b = NegInfinity then b
      else if a = NegZero \<and> b = NegZero then NegZero
      else round_to_double (real_value a + real_value b))"

text \<open>
  A value of the type is a binary64 number when it is special or when rounding leaves
  its rational unchanged.
\<close>

definition is_double :: "number \<Rightarrow> bool" where
  "is_double x = (case x of Num q \<Rightarrow> round_to_double q = Num q | _ \<Rightarrow> True)"

text \<open>
  The regular expression \<open>/^[^\s@]+@[^\s@]+\.[^\s@]+$/\<close> as a syntax tree: a sequence of
  terms, each an assertion, a one-character atom, or an atom under the greedy quantifier
  \<open>+\<close>. It has no flags, so it matches code units and \<open>^\<close>, \<open>$\<close> are the ends of the input.
\<close>

datatype class_atom = ClassChar code_unit | ClassSpace

datatype atom = PatternChar code_unit | NegatedClass "class_atom list"

datatype regex_term = AssertBegin | AssertEnd | Atom atom | Plus atom

fun class_atom_matches :: "class_atom \<Rightarrow> code_unit \<Rightarrow> bool" where
  "class_atom_matches (ClassChar d) c = (c = d)"
| "class_atom_matches ClassSpace c = is_white_space c"

fun atom_matches :: "atom \<Rightarrow> code_unit \<Rightarrow> bool" where
  "atom_matches (PatternChar d) c = (c = d)"
| "atom_matches (NegatedClass cs) c = (\<not> list_ex (\<lambda>a. class_atom_matches a c) cs)"

text \<open>
  The backtracking matcher: \<open>match_terms ts i xs\<close> tries the terms \<open>ts\<close> at index \<open>i\<close> of the
  input, \<open>xs\<close> being the input from \<open>i\<close> on. A quantified atom first tries to go on
  repeating, then to continue with the rest of the pattern.
\<close>

fun match_terms :: "regex_term list \<Rightarrow> nat \<Rightarrow> jsstring \<Rightarrow> bool" where
  "match_terms [] i xs = True"
| "match_terms (AssertBegin # ts) i xs = (i = 0 \<and> match_terms ts i xs)"
| "match_terms (AssertEnd # ts) i xs = (xs = [] \<and> match_terms ts i xs)"
| "match_terms (Atom a # ts) i [] = False"
| "match_terms (Atom a # ts) i (x # xs) = (atom_matches a x \<and> match_terms ts (Suc i) xs)"
| "match_terms (Plus a # ts) i [] = False"
| "match_terms (Plus a # ts) i (x # xs) =
     (atom_matches a x \<and> (match_terms (Plus a # ts) (Suc i) xs \<or> match_terms ts (Suc i) xs))"

text \<open>
  \<open>RegExp.prototype.test\<close> of an expression without the global or sticky flag: the search
  starts at index 0 and tries every start index up to the length of the input.
\<close>

definition test :: "regex_term list \<Rightarrow> jsstring \<Rightarrow> bool" where
  "test r s = list_ex (\<lambda>i. match_terms r i (drop i s)) [0..<Suc (length s)]"

definition emailRegex :: "regex_term list" where
  "emailRegex =
     [AssertBegin,
      Plus (NegatedClass [ClassSpace, ClassChar 0x40]),
      Atom (PatternChar 0x40),
      Plus (NegatedClass [ClassSpace, ClassChar 0x40]),
      Atom (PatternChar 0x2E),
      Plus (NegatedClass [ClassSpace, ClassChar 0x40]),
      AssertEnd]"

definition isValidEmail :: "jsstring \<Rightarrow> bool" where
  "isValidEmail email = test emailRegex email"

text \<open>
  A character that the class \<open>[^\s@]\<close> admits, in the specification's words: neither white
  space nor the at sign.
\<close>

definition address_char :: "code_unit \<Rightarrow> bool" where
  "address_char c = (\<not> is_white_space c \<and> c \<noteq> 0x40)"

section \<open>Facts about rounding\<close>

lemma pow2_of_bitlen:
  assumes "0 < p"
  shows "(2::rat) powi (bitlen p - 1) \<le> of_int p" and "of_int p < (2::rat) powi (bitlen p)"
proof -
  from assms have b: "1 \<le> bitlen p" by (auto simp: bitlen_alt_def)
  from bitlen_bounds [OF assms]
  have lo: "2 ^ nat (bitlen p - 1) \<le> p" and hi: "p < 2 ^ nat (bitlen p)" by simp_all
  from lo have "(of_int (2 ^ nat (bitlen p - 1)) :: rat) \<le> of_int p"
    by (simp only: of_int_le_iff)
  with b show "(2::rat) powi (bitlen p - 1) \<le> of_int p"
    by (simp add: power_int_nonneg_exp)
  from hi have "(of_int p :: rat) < of_int (2 ^ nat (bitlen p))"
    by (simp only: of_int_less_iff)
  with b show "of_int p < (2::rat) powi (bitlen p)"
    by (simp add: power_int_nonneg_exp)
qed

lemma floor_log2_bounds:
  assumes "0 < a"
  shows "2 powi (floor_log2 a) \<le> a" and "a < 2 powi (floor_log2 a + 1)"
proof -
  obtain p d where pd: "quotient_of a = (p, d)" by (cases "quotient_of a")
  then have d: "0 < d" and a: "a = of_int p / of_int d"
    by (simp_all add: quotient_of_denom_pos quotient_of_div)
  with assms have p: "0 < p" by (simp add: zero_less_divide_iff)
  define k where "k = bitlen p - bitlen d"
  have "a < 2 powi (bitlen p) / 2 powi (bitlen d - 1)"
    unfolding a using pow2_of_bitlen [OF p] pow2_of_bitlen [OF d] p
    by (intro frac_less) simp_all
  also have "\<dots> = 2 powi (k + 1)"
    by (simp add: k_def power_int_diff [symmetric] algebra_simps)
  finally have up: "a < 2 powi (k + 1)" .
  have "(2::rat) powi (k - 1) = 2 powi (bitlen p - 1) / 2 powi (bitlen d)"
    by (simp add: k_def power_int_diff [symmetric] algebra_simps)
  also have "\<dots> \<le> a"
    unfolding a using pow2_of_bitlen [OF p] pow2_of_bitlen [OF d] p d
    by (intro frac_le) simp_all
  finally have lo: "2 powi (k - 1) \<le> a" .
  have fl: "floor_log2 a = (if 2 powi k \<le> a then k else k - 1)"
    by (simp add: floor_log2_def pd k_def Let_def)
  from lo show "2 powi (floor_log2 a) \<le> a" by (simp add: fl)
  from up show "a < 2 powi (floor_log2 a + 1)" by (simp add: fl not_le)
qed

lemma pow2_less_imp_less:
  assumes "(2::rat) powi m < 2 powi n"
  shows "m < n"
proof (rule ccontr)
  assume "\<not> m < n"
  then have "n \<le> m" by simp
  then have "(2::rat) powi n \<le> 2 powi m" by (intro power_int_increasing) simp_all
  with assms show False by simp
qed

lemma floor_log2_unique:
  assumes "0 < a" and "2 powi e \<le> a" and "a < 2 powi (e + 1)"
  shows "floor_log2 a = e"
proof -
  from floor_log2_bounds [OF assms(1)] assms(2,3)
  have "(2::rat) powi (floor_log2 a) < 2 powi (e + 1)" and "(2::rat) powi e < 2 powi (floor_log2 a + 1)"
    by simp_all
  then have "floor_log2 a < e + 1" and "e < floor_log2 a + 1"
    by (simp_all only: pow2_less_imp_less)
  then show ?thesis by simp
qed

lemma round_half_even_of_int: "round_half_even (of_int n) = n"
  by (simp add: round_half_even_def)

lemma round_half_even_lower:
  assumes "of_int m \<le> y"
  shows "m \<le> round_half_even y"
proof -
  from assms have "m \<le> \<lfloor>y\<rfloor>" by (simp add: le_floor_iff)
  moreover have "\<lfloor>y\<rfloor> \<le> round_half_even y" by (simp add: round_half_even_def Let_def)
  ultimately show ?thesis by simp
qed

lemma round_half_even_upper:
  assumes "y \<le> of_int m"
  shows "round_half_even y \<le> m"
proof (cases "y = of_int \<lfloor>y\<rfloor>")
  case True
  then have "round_half_even y = \<lfloor>y\<rfloor>"
    by (metis round_half_even_of_int)
  with assms show ?thesis by (simp add: floor_le_iff)
next
  case False
  with of_int_floor_le [of y] have "of_int \<lfloor>y\<rfloor> < y" by linarith
  with assms have "(of_int \<lfloor>y\<rfloor> :: rat) < of_int m" by simp
  then have "\<lfloor>y\<rfloor> < m" by (simp only: of_int_less_iff)
  then show ?thesis by (simp add: round_half_even_def Let_def)
qed

lemma pow2_split: "(2::rat) ^ k * 2 powi (e - int k) = 2 powi e"
proof -
  have "(2::rat) powi (int k + (e - int k)) = 2 powi (int k) * 2 powi (e - int k)"
    by (rule power_int_add) simp
  then show ?thesis by simp
qed

lemma round_to_double_grid:
  assumes "0 < a" and "max (floor_log2 a) (- 1022) = e"
    and "a = of_int n * 2 powi (e - 52)" and "a < 2 powi 1024"
  shows "round_to_double a = Num a" and "round_to_double (- a) = Num (- a)"
proof -
  have q: "a / 2 powi (e - 52) = of_int n" using assms(3) by simp
  have r: "of_int (round_half_even (a / 2 powi (e - 52))) * 2 powi (e - 52) = a"
    by (simp only: q round_half_even_of_int assms(3) [symmetric])
  from assms(1) have abs: "\<bar>a\<bar> = a" "\<bar>- a\<bar> = a" "a \<noteq> 0" "\<not> a < 0" "- a < 0" by simp_all
  from assms(4) have fin: "\<not> 2 powi 1024 \<le> a" by simp
  show "round_to_double a = Num a"
    unfolding round_to_double_def Let_def abs assms(2) r using abs fin by simp
  show "round_to_double (- a) = Num (- a)"
    unfolding round_to_double_def Let_def abs assms(2) r using abs fin by simp
qed

lemma round_to_double_exact:
  assumes n: "0 < n" "n \<le> 2 ^ 53" and e: "- 1022 \<le> e" and sub: "n < 2 ^ 52 \<Longrightarrow> e = - 1022"
    and fin: "of_int n * 2 powi (e - 52) < (2::rat) powi 1024"
  shows "round_to_double (of_int n * 2 powi (e - 52)) = Num (of_int n * 2 powi (e - 52))"
    and "round_to_double (- (of_int n * 2 powi (e - 52))) = Num (- (of_int n * 2 powi (e - 52)))"
proof -
  define u :: rat where "u = 2 powi (e - 52)"
  define r where "r = of_int n * u"
  have u: "0 < u" by (simp add: u_def)
  from n u have r: "0 < r" by (simp add: r_def)
  have p52: "2 ^ 52 * u = 2 powi e" and p53: "2 ^ 53 * u = 2 powi (e + 1)"
    using pow2_split [of 52 e] pow2_split [of 53 "e + 1"] by (simp_all add: u_def)
  have "\<exists>m e'. max (floor_log2 r) (- 1022) = e' \<and> r = of_int m * 2 powi (e' - 52)"
  proof -
    consider (A) "2 ^ 52 \<le> n" "n < 2 ^ 53" | (B) "n = 2 ^ 53" | (C) "n < 2 ^ 52"
      using n by linarith
    then show ?thesis
    proof cases
      case A
      then have "(of_int (2 ^ 52) :: rat) \<le> of_int n" "(of_int n :: rat) < of_int (2 ^ 53)"
        by (simp_all only: of_int_le_iff of_int_less_iff)
      then have "2 ^ 52 * u \<le> r" "r < 2 ^ 53 * u" using u by (simp_all add: r_def)
      then have "2 powi e \<le> r" "r < 2 powi (e + 1)" by (simp_all only: p52 p53)
      with r have "floor_log2 r = e" by (intro floor_log2_unique)
      with e have "max (floor_log2 r) (- 1022) = e" by simp
      then show ?thesis unfolding r_def u_def by blast
    next
      case B
      then have "r = 2 ^ 53 * u" by (simp add: r_def)
      then have req: "r = 2 powi (e + 1)" by (simp only: p53)
      have "(2::rat) powi (e + 1) < 2 powi (e + 1 + 1)"
        by (intro power_int_strict_increasing) simp_all
      then have "floor_log2 r = e + 1" using r by (intro floor_log2_unique) (simp_all add: req)
      with e have "max (floor_log2 r) (- 1022) = e + 1" by simp
      moreover have "r = of_int (2 ^ 52) * 2 powi (e + 1 - 52)"
        using pow2_split [of 52 "e + 1"] by (simp add: req)
      ultimately show ?thesis by blast
    next
      case C
      with sub have e': "e = - 1022" by simp
      from C have "(of_int n :: rat) < of_int (2 ^ 52)" by (simp only: of_int_less_iff)
      then have "r < 2 ^ 52 * u" using u by (simp add: r_def)
      then have "r < 2 powi e" by (simp only: p52)
      with floor_log2_bounds(1) [OF r] have "(2::rat) powi (floor_log2 r) < 2 powi e" by simp
      then have "floor_log2 r < e" by (rule pow2_less_imp_less)
      then have "max (floor_log2 r) (- 1022) = e" by (simp add: e')
      then show ?thesis unfolding r_def u_def by blast
    qed
  qed
  then obtain m e' where g: "max (floor_log2 r) (- 1022) = e'" "r = of_int m * 2 powi (e' - 52)"
    by blast
  from fin have fin': "r < 2 powi 1024" by (simp add: r_def u_def)
  from round_to_double_grid [OF r g fin']
  show "round_to_double (of_int n * 2 powi (e - 52)) = Num (of_int n * 2 powi (e - 52))"
    and "round_to_double (- (of_int n * 2 powi (e - 52))) = Num (- (of_int n * 2 powi (e - 52)))"
    by (simp_all add: r_def u_def)
qed

lemma round_to_double_of_int:
  assumes "\<bar>i\<bar> \<le> 2 ^ 53"
  shows "round_to_double (of_int i) = Num (of_int i)"
proof (cases "i = 0")
  case True
  then show ?thesis by (simp add: round_to_double_def)
next
  case False
  define a :: rat where "a = of_int \<bar>i\<bar>"
  define f where "f = floor_log2 a"
  from False have a1: "1 \<le> a" unfolding a_def by (simp only: of_int_1_le_iff)
  then have a: "0 < a" by simp
  from assms have "a \<le> of_int (2 ^ 53)" unfolding a_def by (simp only: of_int_le_iff)
  then have a53: "a \<le> 2 ^ 53" by simp
  from floor_log2_bounds [OF a] have lo: "2 powi f \<le> a" and hi: "a < 2 powi (f + 1)"
    by (simp_all add: f_def)
  from a1 hi have "(2::rat) powi 0 < 2 powi (f + 1)" by simp
  then have f0: "0 \<le> f" using pow2_less_imp_less [of 0 "f + 1"] by simp
  have "(2::rat) ^ 53 < 2 powi 54" by simp
  with lo a53 have "(2::rat) powi f < 2 powi 54" by simp
  then have f53: "f \<le> 53" using pow2_less_imp_less [of f 54] by simp
  from f0 have m: "max (floor_log2 a) (- 1022) = f" by (simp add: f_def)
  have "\<exists>n. a = of_int n * 2 powi (f - 52)"
  proof (cases "f = 53")
    case True
    with lo a53 have "a = 2 ^ 53" by simp
    then have "a = of_int (2 ^ 52) * 2 powi (f - 52)" by (simp add: True)
    then show ?thesis by blast
  next
    case False
    with f53 have k: "0 \<le> 52 - f" by simp
    have "(2::rat) powi (52 - f + (f - 52)) = 2 powi (52 - f) * 2 powi (f - 52)"
      by (rule power_int_add) simp
    then have "(2::rat) powi (52 - f) * 2 powi (f - 52) = 1" by simp
    then have "a = (a * 2 powi (52 - f)) * 2 powi (f - 52)" by simp
    also have "a * 2 powi (52 - f) = of_int (\<bar>i\<bar> * 2 ^ nat (52 - f))"
      using k by (simp add: a_def power_int_nonneg_exp)
    finally show ?thesis by blast
  qed
  then obtain n where n: "a = of_int n * 2 powi (f - 52)" by blast
  have "(2::rat) ^ 53 < 2 powi 1024" by simp
  with a53 have fin: "a < 2 powi 1024" by (rule le_less_trans)
  from round_to_double_grid [OF a m n fin]
  have pos: "round_to_double a = Num a" and neg: "round_to_double (- a) = Num (- a)" .
  show ?thesis
  proof (cases "0 < i")
    case True
    then have "of_int i = a" by (simp add: a_def)
    with pos show ?thesis by simp
  next
    case False
    then have "of_int i = - a" by (simp add: a_def)
    with neg show ?thesis by simp
  qed
qed

lemma is_double_round_to_double: "is_double (round_to_double x)"
proof (cases "x = 0")
  case True
  then show ?thesis by (simp add: round_to_double_def is_double_def)
next
  case False
  define a where "a = \<bar>x\<bar>"
  define f where "f = floor_log2 a"
  define e where "e = max f (- 1022)"
  define u :: rat where "u = 2 powi (e - 52)"
  define n where "n = round_half_even (a / u)"
  define r where "r = of_int n * u"
  from False have a: "0 < a" by (simp add: a_def)
  have u: "0 < u" by (simp add: u_def)
  have e: "- 1022 \<le> e" by (simp add: e_def)
  have p52: "2 ^ 52 * u = 2 powi e" and p53: "2 ^ 53 * u = 2 powi (e + 1)"
    using pow2_split [of 52 e] pow2_split [of 53 "e + 1"] by (simp_all add: u_def)
  from floor_log2_bounds [OF a] have lo: "2 powi f \<le> a" and hi: "a < 2 powi (f + 1)"
    by (simp_all add: f_def)
  have rd: "round_to_double x =
      (if 2 powi 1024 \<le> r then (if x < 0 then NegInfinity else PosInfinity)
       else if x < 0 then (if r = 0 then NegZero else Num (- r)) else Num r)"
    using False unfolding round_to_double_def Let_def r_def n_def u_def e_def f_def a_def
    by (simp only: if_False)
  have "of_int 0 \<le> a / u" using a u by simp
  then have n0: "0 \<le> n" unfolding n_def by (rule round_half_even_lower)
  have "(2::rat) powi (f + 1) \<le> 2 powi (e + 1)"
    by (intro power_int_increasing) (simp_all add: e_def)
  with hi have "a < 2 ^ 53 * u" by (simp only: p53)
  then have "a / u \<le> 2 ^ 53" using u by (simp add: pos_divide_le_eq)
  then have "a / u \<le> of_int (2 ^ 53)" by simp
  then have n53: "n \<le> 2 ^ 53" unfolding n_def by (rule round_half_even_upper)
  have sub: "e = - 1022" if "n < 2 ^ 52"
  proof (rule ccontr)
    assume "e \<noteq> - 1022"
    then have "e = f" by (simp add: e_def max_def split: if_splits)
    with lo have "2 ^ 52 * u \<le> a" by (simp only: p52)
    then have "2 ^ 52 \<le> a / u" using u by (simp add: pos_le_divide_eq)
    then have "of_int (2 ^ 52) \<le> a / u" by simp
    then have "2 ^ 52 \<le> n" unfolding n_def by (rule round_half_even_lower)
    with that show False by simp
  qed
  show ?thesis
  proof (cases "2 powi 1024 \<le> r")
    case True
    then show ?thesis by (simp add: rd is_double_def)
  next
    case fin: False
    show ?thesis
    proof (cases "n = 0")
      case True
      then have "r = 0" by (simp add: r_def)
      with rd fin have "round_to_double x = NegZero \<or> round_to_double x = Num 0"
        by (simp split: if_splits)
      moreover have "round_to_double 0 = Num 0" by (simp add: round_to_double_def)
      ultimately show ?thesis by (auto simp add: is_double_def)
    next
      case False
      with n0 have npos: "0 < n" by simp
      from fin have "of_int n * 2 powi (e - 52) < (2::rat) powi 1024" by (simp add: r_def u_def)
      from round_to_double_exact [OF npos n53 e sub this]
      have "round_to_double r = Num r" "round_to_double (- r) = Num (- r)"
        by (simp_all add: r_def u_def)
      then show ?thesis using fin by (simp add: rd is_double_def)
    qed
  qed
qed

lemma round_to_double_of_int_integral:
  "isInteger (round_to_double (of_int k))
   \<or> round_to_double (of_int k) = PosInfinity \<or> round_to_double (of_int k) = NegInfinity"
proof (cases "k = 0")
  case True
  then show ?thesis by (simp add: round_to_double_def isInteger_def)
next
  case False
  define x :: rat where "x = of_int k"
  define a where "a = \<bar>x\<bar>"
  define f where "f = floor_log2 a"
  define u :: rat where "u = 2 powi (f - 52)"
  define n where "n = round_half_even (a / u)"
  define r where "r = of_int n * u"
  from False have x0: "x \<noteq> 0" by (simp add: x_def)
  have ak: "a = of_int \<bar>k\<bar>" by (simp add: a_def x_def)
  from False have a1: "1 \<le> a" unfolding ak by (simp only: of_int_1_le_iff)
  then have a: "0 < a" by simp
  from floor_log2_bounds [OF a] have hi: "a < 2 powi (f + 1)" by (simp add: f_def)
  with a1 have "(2::rat) powi 0 < 2 powi (f + 1)" by simp
  then have f0: "0 \<le> f" using pow2_less_imp_less [of 0 "f + 1"] by simp
  then have m: "max (floor_log2 a) (- 1022) = f" by (simp add: f_def)
  have rd: "round_to_double x =
      (if 2 powi 1024 \<le> r then (if x < 0 then NegInfinity else PosInfinity)
       else if x < 0 then (if r = 0 then NegZero else Num (- r)) else Num r)"
    using x0 unfolding round_to_double_def Let_def r_def n_def u_def a_def [symmetric] m
    by (simp only: if_False)
  have "\<exists>z. r = of_int z"
  proof (cases "52 \<le> f")
    case True
    then have "u = of_int (2 ^ nat (f - 52))" by (simp add: u_def power_int_nonneg_exp)
    then have "r = of_int (n * 2 ^ nat (f - 52))" by (simp add: r_def)
    then show ?thesis by blast
  next
    case False
    then have k: "0 \<le> 52 - f" by simp
    have "(2::rat) powi (52 - f + (f - 52)) = 2 powi (52 - f) * 2 powi (f - 52)"
      by (rule power_int_add) simp
    then have inv: "(2::rat) powi (52 - f) * u = 1" by (simp add: u_def)
    have u: "u \<noteq> 0" by (simp add: u_def)
    from inv u have "a / u = a * 2 powi (52 - f)" by (simp add: field_simps)
    also have "\<dots> = of_int (\<bar>k\<bar> * 2 ^ nat (52 - f))"
      using k by (simp add: ak power_int_nonneg_exp)
    finally have "n = \<bar>k\<bar> * 2 ^ nat (52 - f)" by (simp only: n_def round_half_even_of_int)
    then have "r = of_int \<bar>k\<bar> * (2 powi (52 - f) * u)"
      using k by (simp add: r_def power_int_nonneg_exp)
    then have "r = of_int \<bar>k\<bar>" by (simp only: inv mult_1_right)
    then show ?thesis by blast
  qed
  then obtain z where z: "r = of_int z" by blast
  then have "isInteger (Num r)" "isInteger (Num (- r))" by (simp_all add: isInteger_def)
  then show ?thesis using rd unfolding x_def by (auto simp add: isInteger_def split: if_splits)
qed

section \<open>Facts about addition\<close>

lemma round_to_double_2_53_plus_1: "round_to_double (2 ^ 53 + 1) = Num (2 ^ 53)"
proof -
  have "floor_log2 (2 ^ 53 + 1) = 53"
    by (rule floor_log2_unique) simp_all
  moreover have "\<lfloor>9007199254740993 / 2 :: rat\<rfloor> = 4503599627370496"
    by (rule floor_unique) simp_all
  ultimately show ?thesis
    by (simp add: round_to_double_def Let_def round_half_even_def)
qed

lemma round_to_double_2_53_plus_2: "round_to_double (2 ^ 53 + 2) = Num (2 ^ 53 + 2)"
  using round_to_double_exact(1) [of "2 ^ 52 + 1" 53] by simp

lemma add_Num: "add (Num x) (Num y) = round_to_double (x + y)"
  by (simp add: add_def real_value_def)

lemma add_number_commute: "add a b = add b a"
  by (cases a; cases b) (simp_all add: add_def real_value_def add.commute)

lemma add_number_zero: "is_double a \<Longrightarrow> a \<noteq> NegZero \<Longrightarrow> add a (Num 0) = a"
  by (cases a) (simp_all add: add_def real_value_def is_double_def)

lemma add_of_int:
  "\<bar>i + j\<bar> \<le> 2 ^ 53 \<Longrightarrow> add (Num (of_int i)) (Num (of_int j)) = Num (of_int (i + j))"
  using round_to_double_of_int [of "i + j"] by (simp add: add_Num)

lemma is_double_add: "is_double (add a b)"
  by (simp add: add_def is_double_round_to_double) (simp add: is_double_def)

lemma is_double_2_53: "is_double (Num (2 ^ 53))"
  using round_to_double_of_int [of "2 ^ 53"] by (simp add: is_double_def)

lemma is_double_small: "is_double (Num 1)" "is_double (Num 2)"
  using round_to_double_of_int [of 1] round_to_double_of_int [of 2]
  by (simp_all add: is_double_def)

section \<open>Facts about parseInt and the configuration\<close>

lemma parseInt_3000: "parseInt (str ''3000'') 10 = Num 3000"
  by code_simp

lemma round_to_double_not_NaN: "round_to_double x \<noteq> NaN"
  by (simp add: round_to_double_def Let_def)

lemma takeWhile_Nil_iff:
  "takeWhile P xs = [] \<longleftrightarrow> (case xs of [] \<Rightarrow> True | x # _ \<Rightarrow> \<not> P x)"
  by (cases xs) simp_all

lemma parseInt_10_NaN_iff: "parseInt s 10 = NaN \<longleftrightarrow> no_leading_digit s"
  by (simp add: parseInt_def number_of_digits_def no_leading_digit_def Let_def
      round_to_double_not_NaN takeWhile_Nil_iff)

lemma port_config:
  "port (config env) =
     (case env (str ''PORT'') of None \<Rightarrow> Num 3000
      | Some s \<Rightarrow> if s = [] then Num 3000 else parseInt s 10)"
  by (simp add: config_def logical_or_def parseInt_3000 split: option.split)

lemma abc_no_leading_digit: "no_leading_digit (str ''abc'')"
  by code_simp

lemma number_of_digits_cases:
  assumes "P NaN" "P NegZero" "P (Num 0)" "\<And>k. P (round_to_double (of_int k))"
  shows "P (number_of_digits sign R S)"
  using assms by (simp add: number_of_digits_def Let_def del: of_int_mult of_int_minus)

lemma parseInt_cases:
  assumes "P NaN" "P NegZero" "P (Num 0)" "\<And>k. P (round_to_double (of_int k))"
  shows "P (parseInt s R)"
  using assms by (simp add: parseInt_def Let_def number_of_digits_cases)

lemma is_double_parseInt: "is_double (parseInt s R)"
  by (rule parseInt_cases)
    (simp_all add: is_double_round_to_double, simp_all add: is_double_def round_to_double_def)

lemma parseInt_integral:
  "parseInt s R = NaN \<or> isInteger (parseInt s R)
   \<or> parseInt s R = PosInfinity \<or> parseInt s R = NegInfinity"
  by (rule parseInt_cases)
    (simp_all add: round_to_double_of_int_integral, simp_all add: isInteger_def)

section \<open>The port\<close>

text \<open>
  Claim C1, as the specification states it, fails: with \<open>PORT = "abc"\<close> the port is NaN,
  which is neither 3000 nor an integer.
\<close>

theorem C1_port_counterexample:
  "port (config [str ''PORT'' \<mapsto> str ''abc'']) = NaN
   \<and> port (config [str ''PORT'' \<mapsto> str ''abc'']) \<noteq> Num 3000
   \<and> \<not> isInteger (port (config [str ''PORT'' \<mapsto> str ''abc'']))"
proof -
  have "port (config [str ''PORT'' \<mapsto> str ''abc'']) = NaN"
    using abc_no_leading_digit by (simp add: port_config parseInt_10_NaN_iff str_def)
  then show ?thesis by (simp add: isInteger_def)
qed

text \<open>
  Claim C1, amended: the port is 3000 when \<open>PORT\<close> is absent or the empty string; for any
  other value it is \<open>parseInt(PORT, 10)\<close>, which is NaN exactly when the value has no
  decimal digit after its leading white space and one optional sign. A port that is not
  NaN is an integer, or an infinity when the digits exceed the range of the number type.
\<close>

theorem C1_port:
  "(env (str ''PORT'') = None \<or> env (str ''PORT'') = Some [] \<longrightarrow> port (config env) = Num 3000)
   \<and> (\<forall>s. env (str ''PORT'') = Some s \<and> s \<noteq> [] \<longrightarrow>
        port (config env) = parseInt s 10
        \<and> (port (config env) = NaN \<longleftrightarrow> no_leading_digit s))
   \<and> (port (config env) = NaN \<or> isInteger (port (config env))
        \<or> port (config env) = PosInfinity \<or> port (config env) = NegInfinity)"
proof -
  have "isInteger (Num 3000)" by (simp add: isInteger_def)
  with parseInt_integral
  have "port (config env) = NaN \<or> isInteger (port (config env))
        \<or> port (config env) = PosInfinity \<or> port (config env) = NegInfinity"
    by (simp add: port_config split: option.split)
  then show ?thesis
    by (auto simp add: port_config parseInt_10_NaN_iff)
qed

theorem C1_port_witness:
  "(Map.empty :: environment) (str ''PORT'') = None
   \<and> port (config Map.empty) = Num 3000
   \<and> [str ''PORT'' \<mapsto> str ''abc''] (str ''PORT'') = Some (str ''abc'')
   \<and> str ''abc'' \<noteq> []
   \<and> port (config [str ''PORT'' \<mapsto> str ''abc'']) = parseInt (str ''abc'') 10
   \<and> no_leading_digit (str ''abc'')"
proof -
  have a: "[str ''PORT'' \<mapsto> str ''abc''] (str ''PORT'') = Some (str ''abc'')" by simp
  have b: "str ''abc'' \<noteq> []" by (simp add: str_def)
  from C1_port [of Map.empty] have c: "port (config Map.empty) = Num 3000" by simp
  from C1_port [of "[str ''PORT'' \<mapsto> str ''abc'']"] a b
  have d: "port (config [str ''PORT'' \<mapsto> str ''abc'']) = parseInt (str ''abc'') 10" by blast
  from a b c d abc_no_leading_digit show ?thesis by simp
qed

text \<open>
  Claim C2: when \<open>PORT\<close> is present and non-empty and has no decimal digit after its
  leading white space and optional sign, the port is NaN: not an integer and not 3000.
  Only an absent or empty \<open>PORT\<close> takes the default. \<open>PORT = "abc"\<close> is such a value.
\<close>

theorem C2_port_NaN:
  assumes "env (str ''PORT'') = Some s" and "s \<noteq> []" and "no_leading_digit s"
  shows "port (config env) = NaN \<and> \<not> isInteger (port (config env))
         \<and> port (config env) \<noteq> Num 3000"
proof -
  from assms have "port (config env) = NaN"
    by (simp add: port_config parseInt_10_NaN_iff)
  then show ?thesis by (simp add: isInteger_def)
qed

theorem C2_port_NaN_witness:
  "[str ''PORT'' \<mapsto> str ''abc''] (str ''PORT'') = Some (str ''abc'') \<and> str ''abc'' \<noteq> []
   \<and> no_leading_digit (str ''abc'')
   \<and> port (config [str ''PORT'' \<mapsto> str ''abc'']) = NaN
   \<and> \<not> isInteger (port (config [str ''PORT'' \<mapsto> str ''abc'']))
   \<and> port (config [str ''PORT'' \<mapsto> str ''abc'']) \<noteq> Num 3000"
proof -
  have a: "[str ''PORT'' \<mapsto> str ''abc''] (str ''PORT'') = Some (str ''abc'')" by simp
  have b: "str ''abc'' \<noteq> []" by (simp add: str_def)
  have c: "no_leading_digit (str ''abc'')" by (rule abc_no_leading_digit)
  from C2_port_NaN [of "[str ''PORT'' \<mapsto> str ''abc'']" "str ''abc''", OF a b c] a b c
  show ?thesis by blast
qed

section \<open>The other fields\<close>

text \<open>
  Claim C5: \<open>nodeEnv\<close> is the value of \<open>NODE_ENV\<close> when that is present and non-empty, and
  the string \<open>development\<close> when it is absent or empty.
\<close>

theorem C5_nodeEnv:
  "nodeEnv (config env) =
     (case env (str ''NODE_ENV'') of
        Some v \<Rightarrow> if v \<noteq> [] then v else str ''development''
      | None \<Rightarrow> str ''development'')"
  by (simp add: config_def logical_or_def split: option.split)

text \<open>
  Claim C6: \<open>databaseUrl\<close> is the value of \<open>DATABASE_URL\<close> as it stands, absent when the
  key is absent, and \<open>redisUrl\<close> is the value of \<open>REDIS_URL\<close> in the same way.
\<close>

theorem C6_connection_strings:
  "databaseUrl (config env) = env (str ''DATABASE_URL'')
   \<and> redisUrl (config env) = env (str ''REDIS_URL'')"
  by (simp add: config_def)

text \<open>
  Claim C7: on the empty environment the configuration is the one of all defaults:
  \<open>development\<close>, 3000, and both connection strings absent.
\<close>

theorem C7_defaults:
  "config Map.empty =
     \<lparr> nodeEnv = str ''development'', port = Num 3000, databaseUrl = None, redisUrl = None \<rparr>"
  by (simp add: config_def logical_or_def parseInt_3000)

section \<open>Dependence on the environment\<close>

lemma buildConfiguration_config: "buildConfiguration env = (config env, env)"
  by (simp add: buildConfiguration_def read_env_def config_def)

text \<open>
  Claim C9: building the configuration leaves the environment mapping as it was, so it
  has no effect on it, and a second build, run on the environment that the first one
  left, gives a snapshot equal to the first field for field and again leaves the
  environment unchanged. The snapshot is the one that \<open>config\<close> denotes. Fields are
  compared with SameValue, under which NaN equals NaN.
\<close>

theorem C9_idempotent:
  "snd (buildConfiguration env) = env
   \<and> snd (buildConfiguration (snd (buildConfiguration env))) = env
   \<and> fst (buildConfiguration env) = config env
   \<and> nodeEnv (fst (buildConfiguration (snd (buildConfiguration env))))
       = nodeEnv (fst (buildConfiguration env))
   \<and> port (fst (buildConfiguration (snd (buildConfiguration env))))
       = port (fst (buildConfiguration env))
   \<and> databaseUrl (fst (buildConfiguration (snd (buildConfiguration env))))
       = databaseUrl (fst (buildConfiguration env))
   \<and> redisUrl (fst (buildConfiguration (snd (buildConfiguration env))))
       = redisUrl (fst (buildConfiguration env))"
  by (simp add: buildConfiguration_config)

text \<open>
  Claim C10: two environments that agree on \<open>NODE_ENV\<close>, \<open>PORT\<close>, \<open>DATABASE_URL\<close> and
  \<open>REDIS_URL\<close> give the same configuration; no other variable reaches any field.
\<close>

theorem C10_only_four_keys:
  assumes "env1 (str ''NODE_ENV'') = env2 (str ''NODE_ENV'')"
    and "env1 (str ''PORT'') = env2 (str ''PORT'')"
    and "env1 (str ''DATABASE_URL'') = env2 (str ''DATABASE_URL'')"
    and "env1 (str ''REDIS_URL'') = env2 (str ''REDIS_URL'')"
  shows "config env1 = config env2"
  using assms by (simp add: config_def)

theorem C10_only_four_keys_witness:
  "[str ''PORT'' \<mapsto> str ''8080'', str ''HOME'' \<mapsto> str ''/root''] (str ''PORT'')
     = [str ''PORT'' \<mapsto> str ''8080'', str ''HOME'' \<mapsto> str ''/srv'', str ''TZ'' \<mapsto> str ''UTC'']
         (str ''PORT'')
   \<and> [str ''PORT'' \<mapsto> str ''8080'', str ''HOME'' \<mapsto> str ''/root''] (str ''HOME'')
     \<noteq> [str ''PORT'' \<mapsto> str ''8080'', str ''HOME'' \<mapsto> str ''/srv'', str ''TZ'' \<mapsto> str ''UTC'']
         (str ''HOME'')
   \<and> config [str ''PORT'' \<mapsto> str ''8080'', str ''HOME'' \<mapsto> str ''/root'']
     = config [str ''PORT'' \<mapsto> str ''8080'', str ''HOME'' \<mapsto> str ''/srv'', str ''TZ'' \<mapsto> str ''UTC'']"
  using C10_only_four_keys
    [of "[str ''PORT'' \<mapsto> str ''8080'', str ''HOME'' \<mapsto> str ''/root'']"
        "[str ''PORT'' \<mapsto> str ''8080'', str ''HOME'' \<mapsto> str ''/srv'', str ''TZ'' \<mapsto> str ''UTC'']"]
  by (simp add: str_def)

section \<open>The email validator\<close>

lemma test_anchored: "test (AssertBegin # ts) s = match_terms ts 0 s"
  by (auto simp add: test_def list_ex_iff intro: bexI [of _ 0])

lemma match_Atom:
  "match_terms (Atom a # ts) i xs \<longleftrightarrow>
     (\<exists>x zs. xs = x # zs \<and> atom_matches a x \<and> match_terms ts (Suc i) zs)"
  by (cases xs) simp_all

lemma match_Plus:
  "match_terms (Plus a # ts) i xs \<longleftrightarrow>
     (\<exists>ys zs. xs = ys @ zs \<and> ys \<noteq> [] \<and> list_all (atom_matches a) ys
        \<and> match_terms ts (i + length ys) zs)"
proof (induction xs arbitrary: i)
  case Nil
  then show ?case by simp
next
  case (Cons x xs)
  show ?case
  proof
    assume "match_terms (Plus a # ts) i (x # xs)"
    then have ax: "atom_matches a x"
      and alt: "match_terms (Plus a # ts) (Suc i) xs \<or> match_terms ts (Suc i) xs"
      by simp_all
    from alt show "\<exists>ys zs. x # xs = ys @ zs \<and> ys \<noteq> [] \<and> list_all (atom_matches a) ys
        \<and> match_terms ts (i + length ys) zs"
    proof
      assume "match_terms (Plus a # ts) (Suc i) xs"
      with Cons.IH obtain ys zs where "xs = ys @ zs" "ys \<noteq> []" "list_all (atom_matches a) ys"
        "match_terms ts (Suc i + length ys) zs" by blast
      with ax have "x # xs = (x # ys) @ zs \<and> x # ys \<noteq> [] \<and> list_all (atom_matches a) (x # ys)
        \<and> match_terms ts (i + length (x # ys)) zs" by simp
      then show ?thesis by blast
    next
      assume "match_terms ts (Suc i) xs"
      with ax have "x # xs = [x] @ xs \<and> [x] \<noteq> [] \<and> list_all (atom_matches a) [x]
        \<and> match_terms ts (i + length [x]) xs" by simp
      then show ?thesis by blast
    qed
  next
    assume "\<exists>ys zs. x # xs = ys @ zs \<and> ys \<noteq> [] \<and> list_all (atom_matches a) ys
        \<and> match_terms ts (i + length ys) zs"
    then obtain ys zs where eq: "x # xs = ys @ zs" and ne: "ys \<noteq> []"
      and all: "list_all (atom_matches a) ys" and rest: "match_terms ts (i + length ys) zs"
      by blast
    from ne obtain y ys' where ys: "ys = y # ys'" by (cases ys) auto
    with eq have xy: "y = x" and xs: "xs = ys' @ zs" by simp_all
    from all ys xy have ax: "atom_matches a x" and all': "list_all (atom_matches a) ys'"
      by simp_all
    show "match_terms (Plus a # ts) i (x # xs)"
    proof (cases "ys' = []")
      case True
      with rest ys xs ax show ?thesis by simp
    next
      case False
      with xs all' rest ys have "match_terms (Plus a # ts) (Suc i) xs"
        by (subst Cons.IH) auto
      with ax show ?thesis by simp
    qed
  qed
qed

lemma atom_matches_class:
  "atom_matches (NegatedClass [ClassSpace, ClassChar 0x40]) = address_char"
  by (rule ext) (simp add: address_char_def)

lemma isValidEmail_iff:
  "isValidEmail email \<longleftrightarrow>
     (\<exists>l d t. email = l @ [0x40] @ d @ [0x2E] @ t \<and> l \<noteq> [] \<and> d \<noteq> [] \<and> t \<noteq> []
        \<and> list_all address_char l \<and> list_all address_char d \<and> list_all address_char t)"
  unfolding isValidEmail_def emailRegex_def test_anchored
  apply (simp only: match_Plus match_Atom atom_matches_class)
  apply (simp add: match_Plus)
  apply (rule iffI)
   apply (elim exE conjE)
   apply simp
   apply blast
  apply (elim exE conjE)
  apply simp
  apply blast
  done

lemma email_examples:
  "isValidEmail (str ''test@example.com'')" "\<not> isValidEmail (str ''invalid-email'')"
  "\<not> isValidEmail (str [])" "isValidEmail (str ''a@b.c'')" "\<not> isValidEmail (str ''a@b'')"
  by code_simp+

text \<open>
  Claim C3: \<open>isValidEmail\<close> holds exactly of the strings made of one or more characters
  that are neither white space nor \<open>@\<close>, then one \<open>@\<close>, then one or more such characters,
  then a dot, then one or more such characters. It accepts \<open>test@example.com\<close> and
  \<open>a@b.c\<close>, and rejects \<open>invalid-email\<close>, the empty string and \<open>a@b\<close>.
\<close>

theorem C3_isValidEmail:
  "(isValidEmail email \<longleftrightarrow>
      (\<exists>l d t. email = l @ [0x40] @ d @ [0x2E] @ t \<and> l \<noteq> [] \<and> d \<noteq> [] \<and> t \<noteq> []
         \<and> (\<forall>c\<in>set l. \<not> is_white_space c \<and> c \<noteq> 0x40)
         \<and> (\<forall>c\<in>set d. \<not> is_white_space c \<and> c \<noteq> 0x40)
         \<and> (\<forall>c\<in>set t. \<not> is_white_space c \<and> c \<noteq> 0x40)))
   \<and> isValidEmail (str ''test@example.com'') \<and> \<not> isValidEmail (str ''invalid-email'')
   \<and> \<not> isValidEmail (str []) \<and> isValidEmail (str ''a@b.c'') \<and> \<not> isValidEmail (str ''a@b'')"
proof -
  have "isValidEmail email \<longleftrightarrow>
      (\<exists>l d t. email = l @ [0x40] @ d @ [0x2E] @ t \<and> l \<noteq> [] \<and> d \<noteq> [] \<and> t \<noteq> []
         \<and> (\<forall>c\<in>set l. \<not> is_white_space c \<and> c \<noteq> 0x40)
         \<and> (\<forall>c\<in>set d. \<not> is_white_space c \<and> c \<noteq> 0x40)
         \<and> (\<forall>c\<in>set t. \<not> is_white_space c \<and> c \<noteq> 0x40))"
    by (simp add: isValidEmail_iff list_all_iff address_char_def)
  with email_examples show ?thesis
    by - (intro conjI, assumption+)
qed

theorem C3_isValidEmail_witness:
  "isValidEmail (str ''a@b.c'')
   \<and> (\<exists>l d t. str ''a@b.c'' = l @ [0x40] @ d @ [0x2E] @ t \<and> l \<noteq> [] \<and> d \<noteq> [] \<and> t \<noteq> []
         \<and> (\<forall>c\<in>set l. \<not> is_white_space c \<and> c \<noteq> 0x40)
         \<and> (\<forall>c\<in>set d. \<not> is_white_space c \<and> c \<noteq> 0x40)
         \<and> (\<forall>c\<in>set t. \<not> is_white_space c \<and> c \<noteq> 0x40))"
  using C3_isValidEmail [of "str ''a@b.c''"] by blast

section \<open>Addition\<close>

text \<open>
  Claim C8, as the specification states it, fails on representable inputs: \<open>add(2^53, 1)\<close>
  is \<open>2^53\<close>, not the sum, and adding 1 twice to \<open>2^53\<close> differs from adding 2 once.
\<close>

theorem C8_add_counterexample:
  "is_double (Num (2 ^ 53)) \<and> is_double (Num 1)
   \<and> add (Num (2 ^ 53)) (Num 1) = Num (2 ^ 53)
   \<and> add (add (Num (2 ^ 53)) (Num 1)) (Num 1) = Num (2 ^ 53)
   \<and> add (Num (2 ^ 53)) (add (Num 1) (Num 1)) = Num (2 ^ 53 + 2)
   \<and> add (add (Num (2 ^ 53)) (Num 1)) (Num 1) \<noteq> add (Num (2 ^ 53)) (add (Num 1) (Num 1))"
proof -
  have a: "add (Num (2 ^ 53)) (Num 1) = Num (2 ^ 53)"
    by (simp only: add_Num round_to_double_2_53_plus_1)
  have "add (Num 1) (Num 1) = Num 2"
    using add_of_int [of 1 1] by simp
  then have b: "add (Num (2 ^ 53)) (add (Num 1) (Num 1)) = Num (2 ^ 53 + 2)"
    by (simp only: add_Num round_to_double_2_53_plus_2)
  from a b is_double_2_53 is_double_small(1) show ?thesis by simp
qed

text \<open>
  Claim C8, amended: \<open>add\<close> is commutative on all numbers; \<open>add(a, 0)\<close> is \<open>a\<close> for every
  number other than the negative zero; on integers it returns the exact sum whenever
  that sum is at most \<open>2^53\<close> in magnitude, and it is associative on three integers whose
  partial sums and total are within that bound; \<open>add(2, 3) = 5\<close> and \<open>add(-1, 1) = 0\<close>.
\<close>

theorem C8_add:
  "add a b = add b a
   \<and> (is_double a \<and> a \<noteq> NegZero \<longrightarrow> add a (Num 0) = a)
   \<and> (\<bar>i + j\<bar> \<le> 2 ^ 53 \<longrightarrow> add (Num (of_int i)) (Num (of_int j)) = Num (of_int (i + j)))
   \<and> (\<bar>i + j\<bar> \<le> 2 ^ 53 \<and> \<bar>j + k\<bar> \<le> 2 ^ 53 \<and> \<bar>i + j + k\<bar> \<le> 2 ^ 53 \<longrightarrow>
        add (add (Num (of_int i)) (Num (of_int j))) (Num (of_int k))
        = add (Num (of_int i)) (add (Num (of_int j)) (Num (of_int k))))
   \<and> add (Num 2) (Num 3) = Num 5 \<and> add (Num (- 1)) (Num 1) = Num 0"
proof -
  have assoc: "add (add (Num (of_int i)) (Num (of_int j))) (Num (of_int k))
        = add (Num (of_int i)) (add (Num (of_int j)) (Num (of_int k)))"
    if "\<bar>i + j\<bar> \<le> 2 ^ 53" "\<bar>j + k\<bar> \<le> 2 ^ 53" "\<bar>i + j + k\<bar> \<le> 2 ^ 53"
  proof -
    from that have "add (add (Num (of_int i)) (Num (of_int j))) (Num (of_int k))
        = Num (of_int (i + j + k))"
      by (simp only: add_of_int)
    moreover from that have "\<bar>i + (j + k)\<bar> \<le> 2 ^ 53" by (simp add: add.assoc)
    with that have "add (Num (of_int i)) (add (Num (of_int j)) (Num (of_int k)))
        = Num (of_int (i + (j + k)))"
      by (simp only: add_of_int)
    ultimately show ?thesis by (simp add: add.assoc)
  qed
  have ex1: "add (Num 2) (Num 3) = Num 5" using add_of_int [of 2 3] by simp
  have ex2: "add (Num (- 1)) (Num 1) = Num 0" using add_of_int [of "- 1" 1] by simp
  from add_number_commute [of a b] add_number_zero [of a] add_of_int [of i j] assoc ex1 ex2
  show ?thesis by blast
qed

theorem C8_add_witness:
  "add (Num 2) (Num 3) = add (Num 3) (Num 2)
   \<and> is_double (Num 2) \<and> Num 2 \<noteq> NegZero \<and> add (Num 2) (Num 0) = Num 2
   \<and> \<bar>2 + 3 :: int\<bar> \<le> 2 ^ 53 \<and> \<bar>3 + 4 :: int\<bar> \<le> 2 ^ 53 \<and> \<bar>2 + 3 + 4 :: int\<bar> \<le> 2 ^ 53
   \<and> add (Num (of_int 2)) (Num (of_int 3)) = Num (of_int (2 + 3))
   \<and> add (add (Num (of_int 2)) (Num (of_int 3))) (Num (of_int 4))
       = add (Num (of_int 2)) (add (Num (of_int 3)) (Num (of_int 4)))"
proof -
  have h: "is_double (Num 2)" "Num 2 \<noteq> NegZero" "\<bar>2 + 3 :: int\<bar> \<le> 2 ^ 53"
    "\<bar>3 + 4 :: int\<bar> \<le> 2 ^ 53" "\<bar>2 + 3 + 4 :: int\<bar> \<le> 2 ^ 53"
    by (simp_all add: is_double_small)
  from C8_add [of "Num 2" "Num 3" 2 3 4] h show ?thesis by blast
qed

section \<open>Totality\<close>

text \<open>
  Claim C4, as the specification states it, fails in its last part: a malformed \<open>PORT\<close>
  such as \<open>eighty\<close> resolves to NaN, which is neither the documented default nor an
  absent value.
\<close>

theorem C4_malformed_counterexample:
  "[str ''PORT'' \<mapsto> str ''eighty''] (str ''PORT'') = Some (str ''eighty'')
   \<and> port (config [str ''PORT'' \<mapsto> str ''eighty'']) = NaN
   \<and> port (config [str ''PORT'' \<mapsto> str ''eighty'']) \<noteq> Num 3000"
proof -
  have "no_leading_digit (str ''eighty'')" by code_simp
  then have "port (config [str ''PORT'' \<mapsto> str ''eighty'']) = NaN"
    by (simp add: port_config parseInt_10_NaN_iff str_def)
  then show ?thesis by simp
qed

text \<open>
  Claim C4, amended: the three operations are total functions that signal no error. The
  port is a number for every environment and \<open>add\<close> returns a number for every pair of
  arguments; \<open>isValidEmail\<close> answers false on the empty string. A missing \<open>NODE_ENV\<close> or
  \<open>PORT\<close> (absent or empty) resolves to its default and a missing connection string to an
  absent value, while a non-empty \<open>PORT\<close> without a leading digit resolves to NaN.
\<close>

theorem C4_total:
  "is_double (port (config env))
   \<and> (env (str ''NODE_ENV'') = None \<or> env (str ''NODE_ENV'') = Some [] \<longrightarrow>
        nodeEnv (config env) = str ''development'')
   \<and> (env (str ''PORT'') = None \<or> env (str ''PORT'') = Some [] \<longrightarrow> port (config env) = Num 3000)
   \<and> (env (str ''DATABASE_URL'') = None \<longrightarrow> databaseUrl (config env) = None)
   \<and> (env (str ''REDIS_URL'') = None \<longrightarrow> redisUrl (config env) = None)
   \<and> (\<forall>s. env (str ''PORT'') = Some s \<and> s \<noteq> [] \<and> no_leading_digit s \<longrightarrow>
        port (config env) = NaN)
   \<and> is_double (add a b)
   \<and> \<not> isValidEmail []"
proof -
  have "is_double (port (config env))" by (simp add: config_def is_double_parseInt)
  moreover have "\<not> isValidEmail []" by code_simp
  ultimately show ?thesis
    by (auto simp add: port_config parseInt_10_NaN_iff is_double_add)
       (simp_all add: config_def logical_or_def)
qed

theorem C4_total_witness:
  "[str ''PORT'' \<mapsto> str ''eighty''] (str ''NODE_ENV'') = None
   \<and> nodeEnv (config [str ''PORT'' \<mapsto> str ''eighty'']) = str ''development''
   \<and> [str ''PORT'' \<mapsto> str ''eighty''] (str ''DATABASE_URL'') = None
   \<and> databaseUrl (config [str ''PORT'' \<mapsto> str ''eighty'']) = None
   \<and> [str ''PORT'' \<mapsto> str ''eighty''] (str ''REDIS_URL'') = None
   \<and> redisUrl (config [str ''PORT'' \<mapsto> str ''eighty'']) = None
   \<and> [str ''PORT'' \<mapsto> str ''eighty''] (str ''PORT'') = Some (str ''eighty'')
   \<and> str ''eighty'' \<noteq> [] \<and> no_leading_digit (str ''eighty'')
   \<and> port (config [str ''PORT'' \<mapsto> str ''eighty'']) = NaN
   \<and> (Map.empty :: environment) (str ''PORT'') = None \<and> port (config Map.empty) = Num 3000
   \<and> is_double (port (config [str ''PORT'' \<mapsto> str ''eighty'']))
   \<and> is_double (add (Num 2) (Num 3))"
proof -
  have n: "no_leading_digit (str ''eighty'')" by code_simp
  have h: "[str ''PORT'' \<mapsto> str ''eighty''] (str ''NODE_ENV'') = None"
    "[str ''PORT'' \<mapsto> str ''eighty''] (str ''DATABASE_URL'') = None"
    "[str ''PORT'' \<mapsto> str ''eighty''] (str ''REDIS_URL'') = None"
    "[str ''PORT'' \<mapsto> str ''eighty''] (str ''PORT'') = Some (str ''eighty'')"
    "str ''eighty'' \<noteq> []" "(Map.empty :: environment) (str ''PORT'') = None"
    by (simp_all add: str_def)
  from C4_total [of "[str ''PORT'' \<mapsto> str ''eighty'']" "Num 2" "Num 3"]
    C4_total [of Map.empty "Num 2" "Num 3"] n h
  show ?thesis by blast
qed

end
